theory Spec2Isabelle
  imports Main
begin

section \<open>Rectangle\<close>

text \<open>
  \<^verbatim>\<open>function Rectangle(width, height)\<close> returns an object literal with the two fields
  and the method \<^verbatim>\<open>getArea() { return this.width * this.height; }\<close>.
  The object is a record; the method takes the receiver \<^verbatim>\<open>this\<close> as its argument.
  The type of the fields is a parameter carrying the multiplication of the numbers.
\<close>

record 'a rectangle =
  width :: 'a
  height :: 'a

definition Rectangle :: "'a \<Rightarrow> 'a \<Rightarrow> 'a rectangle" where
  "Rectangle w h = \<lparr>width = w, height = h\<rparr>"

definition getArea :: "'a::times rectangle \<Rightarrow> 'a" where
  "getArea this = width this * height this"

section \<open>getJSON and fromJSON\<close>

text \<open>
  Modelled from the spec: the objects of the runtime, which the source does not define.
  An object is a prototype link (\<open>None\<close> for \<^verbatim>\<open>null\<close>) and its own fields, a map from
  names to values; the type of the values is a parameter, so a value may be data or a
  method.
\<close>

datatype 'v obj = Obj (prototype: "'v obj option") (own: "string \<rightharpoonup> 'v")

text \<open>
  Modelled from the spec: reading a member of an object, which is missing from the source.
  An own field comes first; a name the object does not own is read through the prototype
  link.
\<close>

fun lookup :: "'v obj \<Rightarrow> string \<Rightarrow> 'v option" where
  "lookup (Obj p members) k =
     (case members k of
        Some v \<Rightarrow> Some v
      | None \<Rightarrow> (case p of None \<Rightarrow> None | Some q \<Rightarrow> lookup q k))"

text \<open>
  Modelled from the spec: the built-in \<^verbatim>\<open>Object.create\<close>, missing from the source. The
  new object has the given prototype link and no own field.
\<close>

definition Object_create :: "'v obj \<Rightarrow> 'v obj" where
  "Object_create proto = Obj (Some proto) Map.empty"

text \<open>
  Modelled from the spec: the built-in \<^verbatim>\<open>Object.assign\<close>, missing from the source. The
  own fields of the source are copied onto the target as own fields (a shallow copy, a
  copied field replacing an own field of the same name); the target keeps its prototype
  link and is the value returned.
\<close>

definition Object_assign :: "'v obj \<Rightarrow> 'v obj \<Rightarrow> 'v obj" where
  "Object_assign target source = Obj (prototype target) (own target ++ own source)"

text \<open>
  \<^verbatim>\<open>function getJSON(obj) { return JSON.stringify(obj); }\<close> and
  \<^verbatim>\<open>function fromJSON(proto, json) { return Object.assign(Object.create(proto), JSON.parse(json)); }\<close>.
  The serializer and the parser of the runtime are parameters; the parser either throws
  (\<open>Inl\<close>) or returns an object, and \<open>fromJSON\<close> lets what it throws pass.
\<close>

definition getJSON :: "('v obj \<Rightarrow> string) \<Rightarrow> 'v obj \<Rightarrow> string" where
  "getJSON JSON_stringify obj = JSON_stringify obj"

definition fromJSON :: "(string \<Rightarrow> 'e + 'v obj) \<Rightarrow> 'v obj \<Rightarrow> string \<Rightarrow> 'e + 'v obj" where
  "fromJSON JSON_parse proto json =
     (case JSON_parse json of
        Inl e \<Rightarrow> Inl e
      | Inr parsed \<Rightarrow> Inr (Object_assign (Object_create proto) parsed))"

text \<open>
  An object is serializable without loss by a serializer and a parser when parsing its
  text returns an object with the same own fields.
\<close>

definition serializable_without_loss ::
    "('v obj \<Rightarrow> string) \<Rightarrow> (string \<Rightarrow> 'e + 'v obj) \<Rightarrow> 'v obj \<Rightarrow> bool" where
  "serializable_without_loss JSON_stringify JSON_parse obj =
     (case JSON_parse (JSON_stringify obj) of
        Inl e \<Rightarrow> False
      | Inr parsed \<Rightarrow> own parsed = own obj)"

section \<open>The CSS selector builder\<close>

subsection \<open>Data\<close>

text \<open>
  The tags that \<^verbatim>\<open>checkStructure\<close> receives are the six string literals passed by the
  part methods: \<^verbatim>\<open>'element'\<close>, \<^verbatim>\<open>'id'\<close>, \<^verbatim>\<open>'class'\<close>, \<^verbatim>\<open>'attr'\<close>,
  \<^verbatim>\<open>'pseudoClass'\<close>, \<^verbatim>\<open>'pseudoElement'\<close>.
\<close>

datatype kind = Element | Id | Class | Attr | PseudoClass | PseudoElement

text \<open>Both failures are \<^verbatim>\<open>throw new Error(msg)\<close>; they differ in the message.\<close>

datatype error = Error string

definition msgOrder :: string where
  "msgOrder = ''Selector parts should be arranged in the following order: element, id, class, attribute, pseudo-class, pseudo-element''"

definition msgUniqs :: string where
  "msgUniqs = ''Element, id and pseudo-element should not occur more then one time inside the selector''"

text \<open>
  The constructor sets four fields. \<^verbatim>\<open>css\<close> and \<^verbatim>\<open>structure\<close> are the ones the
  methods assign; \<^verbatim>\<open>order\<close> and \<^verbatim>\<open>uniqs\<close> are set once and only read, so they
  are constants here.
\<close>

record CSSSelector =
  css :: string
  "structure" :: "kind list"

fun order :: "kind \<Rightarrow> nat" where
  "order Element = 1"
| "order Id = 2"
| "order Class = 3"
| "order Attr = 4"
| "order PseudoClass = 5"
| "order PseudoElement = 6"

definition uniqs :: "kind list" where
  "uniqs = [Element, Id, PseudoElement]"

definition new_CSSSelector :: CSSSelector where
  "new_CSSSelector = \<lparr>css = [], structure = []\<rparr>"

subsection \<open>Methods\<close>

text \<open>
  A method call on a builder yields how the call completed (\<open>Inl\<close> the thrown error,
  \<open>Inr\<close> a normal return) together with the builder's fields after the call. The part
  methods and \<^verbatim>\<open>combine\<close> return \<^verbatim>\<open>this\<close>: the builder whose fields are the second
  component.
\<close>

type_synonym outcome = "(error + unit) \<times> CSSSelector"

definition checkStructure :: "CSSSelector \<Rightarrow> kind \<Rightarrow> outcome" where
  "checkStructure this v =
     (if v \<in> set uniqs \<and> v \<in> set (structure this) then (Inl (Error msgUniqs), this)
      else if length (structure this) > 0 \<and> order v < order (last (structure this))
        then (Inl (Error msgOrder), this)
      else (Inr (), this\<lparr>structure := structure this @ [v]\<rparr>))"

definition element :: "CSSSelector \<Rightarrow> string \<Rightarrow> outcome" where
  "element this v =
     (case checkStructure this Element of
        (Inl e, this') \<Rightarrow> (Inl e, this')
      | (Inr u, this') \<Rightarrow> (Inr (), this'\<lparr>css := css this' @ v\<rparr>))"

definition id_sel :: "CSSSelector \<Rightarrow> string \<Rightarrow> outcome" where
  "id_sel this v =
     (case checkStructure this Id of
        (Inl e, this') \<Rightarrow> (Inl e, this')
      | (Inr u, this') \<Rightarrow> (Inr (), this'\<lparr>css := css this' @ ''#'' @ v\<rparr>))"

definition class_sel :: "CSSSelector \<Rightarrow> string \<Rightarrow> outcome" where
  "class_sel this v =
     (case checkStructure this Class of
        (Inl e, this') \<Rightarrow> (Inl e, this')
      | (Inr u, this') \<Rightarrow> (Inr (), this'\<lparr>css := css this' @ ''.'' @ v\<rparr>))"

definition attr :: "CSSSelector \<Rightarrow> string \<Rightarrow> outcome" where
  "attr this v =
     (case checkStructure this Attr of
        (Inl e, this') \<Rightarrow> (Inl e, this')
      | (Inr u, this') \<Rightarrow> (Inr (), this'\<lparr>css := css this' @ ''['' @ v @ '']''\<rparr>))"

definition pseudoClass :: "CSSSelector \<Rightarrow> string \<Rightarrow> outcome" where
  "pseudoClass this v =
     (case checkStructure this PseudoClass of
        (Inl e, this') \<Rightarrow> (Inl e, this')
      | (Inr u, this') \<Rightarrow> (Inr (), this'\<lparr>css := css this' @ '':'' @ v\<rparr>))"

definition pseudoElement :: "CSSSelector \<Rightarrow> string \<Rightarrow> outcome" where
  "pseudoElement this v =
     (case checkStructure this PseudoElement of
        (Inl e, this') \<Rightarrow> (Inl e, this')
      | (Inr u, this') \<Rightarrow> (Inr (), this'\<lparr>css := css this' @ ''::'' @ v\<rparr>))"

text \<open>
  \<^verbatim>\<open>stringify\<close> returns a string and assigns nothing: the value returned, and the
  builder after the call.
\<close>

definition stringify :: "CSSSelector \<Rightarrow> string \<times> CSSSelector" where
  "stringify this = (css this, this)"

text \<open>
  \<^verbatim>\<open>this.css += `${selector1.stringify()} ${combinator} ${selector2.stringify()}`\<close>:
  the old text is read first, then the two operands are stringified; as \<open>stringify\<close>
  leaves its object as it was, the result is the same when an operand is the receiver.
\<close>

definition combine :: "CSSSelector \<Rightarrow> CSSSelector \<Rightarrow> string \<Rightarrow> CSSSelector \<Rightarrow> outcome" where
  "combine this selector1 combinator selector2 =
     (Inr (), this\<lparr>css := css this @
        (fst (stringify selector1) @ '' '' @ combinator @ '' '' @ fst (stringify selector2))\<rparr>)"

subsection \<open>The facade\<close>

definition cssSelectorBuilder_element :: "string \<Rightarrow> outcome" where
  "cssSelectorBuilder_element v = element new_CSSSelector v"

definition cssSelectorBuilder_id :: "string \<Rightarrow> outcome" where
  "cssSelectorBuilder_id v = id_sel new_CSSSelector v"

definition cssSelectorBuilder_class :: "string \<Rightarrow> outcome" where
  "cssSelectorBuilder_class v = class_sel new_CSSSelector v"

definition cssSelectorBuilder_attr :: "string \<Rightarrow> outcome" where
  "cssSelectorBuilder_attr v = attr new_CSSSelector v"

definition cssSelectorBuilder_pseudoClass :: "string \<Rightarrow> outcome" where
  "cssSelectorBuilder_pseudoClass v = pseudoClass new_CSSSelector v"

definition cssSelectorBuilder_pseudoElement :: "string \<Rightarrow> outcome" where
  "cssSelectorBuilder_pseudoElement v = pseudoElement new_CSSSelector v"

definition cssSelectorBuilder_combine :: "CSSSelector \<Rightarrow> string \<Rightarrow> CSSSelector \<Rightarrow> outcome" where
  "cssSelectorBuilder_combine selector1 combinator selector2 =
     combine new_CSSSelector selector1 combinator selector2"

definition cssSelectorBuilder_stringify :: string where
  "cssSelectorBuilder_stringify = fst (stringify new_CSSSelector)"

subsection \<open>Chains of calls\<close>

text \<open>
  A call of one of the mutating methods, and a chain \<^verbatim>\<open>b.m1(..).m2(..)...\<close> on one
  builder: the calls run in order, and the first one that throws ends the chain.
\<close>

datatype call = Part kind string | Combine CSSSelector string CSSSelector

fun perform :: "CSSSelector \<Rightarrow> call \<Rightarrow> outcome" where
  "perform this (Part Element v) = element this v"
| "perform this (Part Id v) = id_sel this v"
| "perform this (Part Class v) = class_sel this v"
| "perform this (Part Attr v) = attr this v"
| "perform this (Part PseudoClass v) = pseudoClass this v"
| "perform this (Part PseudoElement v) = pseudoElement this v"
| "perform this (Combine selector1 combinator selector2) =
     combine this selector1 combinator selector2"

fun run :: "CSSSelector \<Rightarrow> call list \<Rightarrow> outcome" where
  "run this [] = (Inr (), this)"
| "run this (c # cs) =
     (case perform this c of
        (Inl e, this') \<Rightarrow> (Inl e, this')
      | (Inr u, this') \<Rightarrow> run this' cs)"

text \<open>The rendering of a part as the specification words it.\<close>

fun literal_rendering :: "kind \<times> string \<Rightarrow> string" where
  "literal_rendering (Element, v) = v"
| "literal_rendering (Id, v) = ''#'' @ v"
| "literal_rendering (Class, v) = ''.'' @ v"
| "literal_rendering (Attr, v) = ''['' @ v @ '']''"
| "literal_rendering (PseudoClass, v) = '':'' @ v"
| "literal_rendering (PseudoElement, v) = ''::'' @ v"

text \<open>
  The two conditions on the sequence of kinds applied: ranks never decrease, and no kind
  of \<open>uniqs\<close> occurs twice.
\<close>

definition rank_sorted :: "kind list \<Rightarrow> bool" where
  "rank_sorted ks = sorted (map order ks)"

definition singletons_once :: "kind list \<Rightarrow> bool" where
  "singletons_once ks = list_all (\<lambda>k. count_list ks k \<le> 1) uniqs"

section \<open>Properties\<close>

subsection \<open>Rectangle\<close>

text \<open>
  C9. \<open>Rectangle w h\<close> has \<open>width = w\<close> and \<open>height = h\<close>; \<open>getArea\<close> is the product of
  the fields the object has when it is called, so after \<open>width\<close> is assigned a new value the
  next call uses it. \<open>Rectangle 10 20\<close> has area 200 (integers, whose product the
  numbers of the source compute exactly), and 100 once its width is set to 5.
\<close>

theorem Rectangle_getArea:
  "width (Rectangle w h) = w \<and> height (Rectangle w h) = h
   \<and> getArea (Rectangle w h) = w * h
   \<and> getArea r = width r * height r
   \<and> getArea (r\<lparr>width := w'\<rparr>) = w' * height r
   \<and> getArea ((Rectangle w h)\<lparr>width := w'\<rparr>) = w' * h
   \<and> getArea (Rectangle (10::int) 20) = 200
   \<and> getArea ((Rectangle (10::int) 20)\<lparr>width := 5\<rparr>) = 100"
  by (simp add: Rectangle_def getArea_def)

subsection \<open>getJSON and fromJSON\<close>

lemma lookup_own: "own r k = Some v \<Longrightarrow> lookup r k = Some v"
  by (cases r) simp

lemma lookup_inherited:
  "own r k = None \<Longrightarrow> prototype r = Some p \<Longrightarrow> lookup r k = lookup p k"
  by (cases r) simp

text \<open>
  C8. For every serializer and parser, every object \<open>obj\<close> that they serialize without
  loss and every prototype object \<open>proto\<close>, \<open>fromJSON proto (getJSON obj)\<close> returns an
  object whose own fields are those of \<open>obj\<close> and whose prototype link is \<open>proto\<close>: each
  field of \<open>obj\<close> is read from it as \<open>obj\<close> has it, and every other name is not an own
  field of it and is read through the link as \<open>proto\<close> gives it, so the methods of
  \<open>proto\<close> stay accessible as members that are not its own.
\<close>

theorem fromJSON_getJSON_round_trip:
  assumes "serializable_without_loss JSON_stringify JSON_parse obj"
  shows "\<exists>r. fromJSON JSON_parse proto (getJSON JSON_stringify obj) = Inr r
     \<and> own r = own obj
     \<and> prototype r = Some proto
     \<and> (\<forall>k v. own obj k = Some v \<longrightarrow> lookup r k = Some v)
     \<and> (\<forall>m. own obj m = None \<longrightarrow> own r m = None \<and> lookup r m = lookup proto m)"
proof -
  from assms obtain parsed
    where parsed: "JSON_parse (JSON_stringify obj) = Inr parsed" "own parsed = own obj"
    by (auto simp: serializable_without_loss_def split: sum.splits)
  let ?r = "Object_assign (Object_create proto) parsed"
  have res: "fromJSON JSON_parse proto (getJSON JSON_stringify obj) = Inr ?r"
    by (simp add: fromJSON_def getJSON_def parsed(1))
  have fields: "own ?r = own obj"
    by (simp add: Object_assign_def Object_create_def parsed(2))
  have link: "prototype ?r = Some proto"
    by (simp add: Object_assign_def Object_create_def)
  have "lookup ?r k = Some v" if "own obj k = Some v" for k v
    using that fields by (simp add: lookup_own)
  moreover have "own ?r m = None \<and> lookup ?r m = lookup proto m" if "own obj m = None" for m
    using that fields link by (simp add: lookup_inherited)
  ultimately show ?thesis using res fields link by blast
qed

text \<open>
  The object \<^verbatim>\<open>{radius: 10}\<close> and a prototype with one method, under a serializer that
  writes the text of that object and a parser that reads it back: the result has
  \<open>radius\<close> 10 and reaches the method, which it does not own. A value is a number
  (\<open>Inl\<close>) or a method, given by its name (\<open>Inr\<close>).
\<close>

theorem fromJSON_getJSON_round_trip_witness:
  \<open>serializable_without_loss
     (\<lambda>obj. ''{"radius":10}'')
     (\<lambda>json. if json = ''{"radius":10}''
        then Inr (Obj None [''radius'' \<mapsto> Inl (10::int)]) else Inl ''SyntaxError'')
     (Obj None [''radius'' \<mapsto> Inl (10::int)] :: (int + string) obj)
   \<and> (\<exists>r. fromJSON
         (\<lambda>json. if json = ''{"radius":10}''
            then Inr (Obj None [''radius'' \<mapsto> Inl (10::int)]) else Inl ''SyntaxError'')
         (Obj None [''getCircumference'' \<mapsto> Inr ''function''])
         (getJSON (\<lambda>obj. ''{"radius":10}'')
            (Obj None [''radius'' \<mapsto> Inl (10::int)] :: (int + string) obj)) = Inr r
       \<and> lookup r ''radius'' = Some (Inl (10::int))
       \<and> own r ''getCircumference'' = None
       \<and> lookup r ''getCircumference'' = Some (Inr ''function''))\<close>
proof -
  let ?str = \<open>\<lambda>obj :: (int + string) obj. ''{"radius":10}''\<close>
  let ?parse = \<open>\<lambda>json. if json = ''{"radius":10}''
        then Inr (Obj None [''radius'' \<mapsto> Inl (10::int)]) else Inl ''SyntaxError''\<close>
  let ?obj = "Obj None [''radius'' \<mapsto> Inl (10::int)] :: (int + string) obj"
  let ?proto = "Obj None [''getCircumference'' \<mapsto> Inr ''function''] :: (int + string) obj"
  have h: "serializable_without_loss ?str ?parse ?obj"
    by (simp add: serializable_without_loss_def)
  from fromJSON_getJSON_round_trip [OF h, of ?proto] obtain r where
    r: "fromJSON ?parse ?proto (getJSON ?str ?obj) = Inr r"
      "\<forall>k v. own ?obj k = Some v \<longrightarrow> lookup r k = Some v"
      "\<forall>m. own ?obj m = None \<longrightarrow> own r m = None \<and> lookup r m = lookup ?proto m"
    by blast
  from r(2) have a: "lookup r ''radius'' = Some (Inl 10)" by simp
  from r(3) have b: "own r ''getCircumference'' = None
      \<and> lookup r ''getCircumference'' = lookup ?proto ''getCircumference''"
    by simp
  then have c: "lookup r ''getCircumference'' = Some (Inr ''function'')" by simp
  from b have d: "own r ''getCircumference'' = None" by simp
  show ?thesis
  proof (intro conjI exI [of _ r])
    show "serializable_without_loss ?str ?parse ?obj" by (rule h)
    show "fromJSON ?parse ?proto (getJSON ?str ?obj) = Inr r" by (rule r(1))
    show "lookup r ''radius'' = Some (Inl 10)" by (rule a)
    show "own r ''getCircumference'' = None" by (rule d)
    show "lookup r ''getCircumference'' = Some (Inr ''function'')" by (rule c)
  qed
qed

subsection \<open>One part method\<close>

text \<open>
  The six part methods differ in the tag they validate and in the text they append; the
  text is the rendering of the part.
\<close>

lemma perform_Part:
  "perform this (Part k v) =
     (case checkStructure this k of
        (Inl e, this') \<Rightarrow> (Inl e, this')
      | (Inr u, this') \<Rightarrow> (Inr (), this'\<lparr>css := css this' @ literal_rendering (k, v)\<rparr>))"
  by (cases k)
     (simp_all add: element_def id_sel_def class_sel_def attr_def pseudoClass_def
        pseudoElement_def split: prod.splits sum.splits)

text \<open>Each facade entry point is the method on a new builder.\<close>

lemma facade_perform:
  "cssSelectorBuilder_element v = perform new_CSSSelector (Part Element v)"
  "cssSelectorBuilder_id v = perform new_CSSSelector (Part Id v)"
  "cssSelectorBuilder_class v = perform new_CSSSelector (Part Class v)"
  "cssSelectorBuilder_attr v = perform new_CSSSelector (Part Attr v)"
  "cssSelectorBuilder_pseudoClass v = perform new_CSSSelector (Part PseudoClass v)"
  "cssSelectorBuilder_pseudoElement v = perform new_CSSSelector (Part PseudoElement v)"
  "cssSelectorBuilder_combine s1 c s2 = perform new_CSSSelector (Combine s1 c s2)"
  by (simp_all add: cssSelectorBuilder_element_def cssSelectorBuilder_id_def
      cssSelectorBuilder_class_def cssSelectorBuilder_attr_def
      cssSelectorBuilder_pseudoClass_def cssSelectorBuilder_pseudoElement_def
      cssSelectorBuilder_combine_def)

lemma checkStructure_accepts:
  assumes "\<not> (k \<in> set uniqs \<and> k \<in> set (structure this))"
    and "structure this = [] \<or> order (last (structure this)) \<le> order k"
  shows "checkStructure this k = (Inr (), this\<lparr>structure := structure this @ [k]\<rparr>)"
  using assms by (auto simp: checkStructure_def)

lemma perform_Part_accepts:
  assumes "\<not> (k \<in> set uniqs \<and> k \<in> set (structure this))"
    and "structure this = [] \<or> order (last (structure this)) \<le> order k"
  shows "perform this (Part k v) =
     (Inr (), \<lparr>css = css this @ literal_rendering (k, v), structure = structure this @ [k]\<rparr>)"
  by (simp add: perform_Part checkStructure_accepts [OF assms])

subsection \<open>Valid chains\<close>

lemma sorted_last_le:
  assumes "sorted (xs @ y # ys)" "xs \<noteq> []"
  shows "last xs \<le> (y::nat)"
  using assms by (simp add: sorted_append)

lemma singletons_once_fresh:
  assumes "singletons_once (ks @ k # ks')" "k \<in> set uniqs"
  shows "k \<notin> set ks"
proof
  assume "k \<in> set ks"
  then have "count_list ks k \<ge> 1"
    using count_list_0_iff [of ks k] by (cases "count_list ks k") auto
  then have "count_list (ks @ k # ks') k \<ge> 2" by simp
  moreover from assms have "count_list (ks @ k # ks') k \<le> 1"
    unfolding singletons_once_def list_all_iff by blast
  ultimately show False by simp
qed

text \<open>
  From any builder: when the kinds applied so far followed by the kinds of the calls are
  sorted by rank and have no singleton kind twice, every call returns, and the text and
  the kinds are appended in call order.
\<close>

lemma run_parts:
  assumes "rank_sorted (structure this @ map fst ps)"
    and "singletons_once (structure this @ map fst ps)"
  shows "run this (map (\<lambda>(k, v). Part k v) ps) =
     (Inr (), \<lparr>css = css this @ concat (map literal_rendering ps),
               structure = structure this @ map fst ps\<rparr>)"
  using assms
proof (induction ps arbitrary: this)
  case Nil
  then show ?case by simp
next
  case (Cons p ps)
  obtain k v where p: "p = (k, v)" by (cases p)
  let ?next = "\<lparr>css = css this @ literal_rendering (k, v), structure = structure this @ [k]\<rparr>"
  from Cons.prems(2) p have fresh: "\<not> (k \<in> set uniqs \<and> k \<in> set (structure this))"
    using singletons_once_fresh [of "structure this" k "map fst ps"] by auto
  from Cons.prems(1) p have ord: "structure this = [] \<or> order (last (structure this)) \<le> order k"
    using sorted_last_le [of "map order (structure this)" "order k" "map order (map fst ps)"]
    by (auto simp: rank_sorted_def last_map)
  have step: "perform this (Part k v) = (Inr (), ?next)"
    by (rule perform_Part_accepts [OF fresh ord])
  have "run ?next (map (\<lambda>(k, v). Part k v) ps) =
     (Inr (), \<lparr>css = css ?next @ concat (map literal_rendering ps),
               structure = structure ?next @ map fst ps\<rparr>)"
    using Cons.prems p by (intro Cons.IH) simp_all
  then show ?case using step p by simp
qed

text \<open>
  C1. For every sequence \<open>ps\<close> of part-method calls (kind and value) made in order on a new
  builder, if the ranks of the kinds never decrease and none of element, id,
  pseudoElement occurs more than once, then no call throws and \<open>stringify\<close> returns the
  concatenation, in call order, of the renderings of the parts.
\<close>

theorem chain_stringify:
  assumes "rank_sorted (map fst ps)" and "singletons_once (map fst ps)"
  shows "fst (run new_CSSSelector (map (\<lambda>(k, v). Part k v) ps)) = Inr ()
    \<and> fst (stringify (snd (run new_CSSSelector (map (\<lambda>(k, v). Part k v) ps))))
        = concat (map literal_rendering ps)"
  using run_parts [of new_CSSSelector ps] assms
  by (simp add: new_CSSSelector_def stringify_def)

theorem chain_stringify_witness:
  "rank_sorted (map fst [(Element, ''div''), (Id, ''main''), (Class, ''container''),
       (Class, ''draggable''), (Attr, ''href''), (PseudoClass, ''focus''), (PseudoElement, ''after'')])
   \<and> singletons_once (map fst [(Element, ''div''), (Id, ''main''), (Class, ''container''),
       (Class, ''draggable''), (Attr, ''href''), (PseudoClass, ''focus''), (PseudoElement, ''after'')])
   \<and> fst (run new_CSSSelector [Part Element ''div'', Part Id ''main'', Part Class ''container'',
       Part Class ''draggable'', Part Attr ''href'', Part PseudoClass ''focus'',
       Part PseudoElement ''after'']) = Inr ()
   \<and> fst (stringify (snd (run new_CSSSelector [Part Element ''div'', Part Id ''main'',
       Part Class ''container'', Part Class ''draggable'', Part Attr ''href'',
       Part PseudoClass ''focus'', Part PseudoElement ''after''])))
     = ''div#main.container.draggable[href]:focus::after''"
proof -
  let ?ps = "[(Element, ''div''), (Id, ''main''), (Class, ''container''),
       (Class, ''draggable''), (Attr, ''href''), (PseudoClass, ''focus''), (PseudoElement, ''after'')]"
  have a: "rank_sorted (map fst ?ps)" by (simp add: rank_sorted_def)
  have b: "singletons_once (map fst ?ps)" by (simp add: singletons_once_def uniqs_def)
  show ?thesis using a b chain_stringify [OF a b] by simp
qed

subsection \<open>The two checks\<close>

text \<open>
  C2, as the code has it. On a builder with at least one part, a part method whose kind
  has a rank strictly below the rank of the last part throws: the order error, unless the
  kind is one of \<open>uniqs\<close> and already present, where the first check throws the
  uniqueness error instead. A part of the same rank as the last one never meets the order
  error, and a repeated class, attr or pseudoClass returns normally.
  \<^verbatim>\<open>id('x').element('y')\<close> throws the order error and
  \<^verbatim>\<open>class('a').class('b').stringify()\<close> is \<^verbatim>\<open>'.a.b'\<close>.
\<close>

theorem order_check:
  "(structure this \<noteq> [] \<and> order k < order (last (structure this))
      \<longrightarrow> fst (perform this (Part k v)) =
            Inl (Error (if k \<in> set uniqs \<and> k \<in> set (structure this) then msgUniqs
                        else msgOrder)))
   \<and> (structure this \<noteq> [] \<and> order k = order (last (structure this))
      \<longrightarrow> fst (perform this (Part k v)) \<noteq> Inl (Error msgOrder))
   \<and> (structure this \<noteq> [] \<and> order k = order (last (structure this))
        \<and> k \<in> {Class, Attr, PseudoClass}
      \<longrightarrow> fst (perform this (Part k v)) = Inr ())
   \<and> fst (run new_CSSSelector [Part Id ''x'', Part Element ''y'']) = Inl (Error msgOrder)
   \<and> fst (run new_CSSSelector [Part Class ''a'', Part Class ''b'']) = Inr ()
   \<and> fst (stringify (snd (run new_CSSSelector [Part Class ''a'', Part Class ''b'']))) = ''.a.b''"
proof -
  have lower: "structure this \<noteq> [] \<and> order k < order (last (structure this))
      \<longrightarrow> fst (perform this (Part k v)) =
            Inl (Error (if k \<in> set uniqs \<and> k \<in> set (structure this) then msgUniqs
                        else msgOrder))"
    by (simp add: perform_Part checkStructure_def)
  have equal: "structure this \<noteq> [] \<and> order k = order (last (structure this))
      \<longrightarrow> fst (perform this (Part k v)) \<noteq> Inl (Error msgOrder)"
    by (simp add: perform_Part checkStructure_def msgUniqs_def msgOrder_def)
  have repeated: "structure this \<noteq> [] \<and> order k = order (last (structure this))
        \<and> k \<in> {Class, Attr, PseudoClass}
      \<longrightarrow> fst (perform this (Part k v)) = Inr ()"
    by (auto simp: perform_Part checkStructure_def uniqs_def)
  have ex1: "fst (run new_CSSSelector [Part Id ''x'', Part Element ''y'']) = Inl (Error msgOrder)"
    by (simp add: element_def id_sel_def checkStructure_def new_CSSSelector_def uniqs_def)
  have ex2: "run new_CSSSelector [Part Class ''a'', Part Class ''b'']
      = (Inr (), \<lparr>css = ''.a.b'', structure = [Class, Class]\<rparr>)"
    by (simp add: class_sel_def checkStructure_def new_CSSSelector_def uniqs_def)
  from lower equal repeated ex1 ex2 show ?thesis
    by (simp only: stringify_def fst_conv snd_conv simp_thms CSSSelector.simps)
qed

theorem order_check_witness:
  "structure \<lparr>css = ''.a'', structure = [Class]\<rparr> \<noteq> []
   \<and> order Id < order (last (structure \<lparr>css = ''.a'', structure = [Class]\<rparr>))
   \<and> fst (perform \<lparr>css = ''.a'', structure = [Class]\<rparr> (Part Id ''x'')) = Inl (Error msgOrder)
   \<and> order Class = order (last (structure \<lparr>css = ''.a'', structure = [Class]\<rparr>))
   \<and> Class \<in> {Class, Attr, PseudoClass}
   \<and> fst (perform \<lparr>css = ''.a'', structure = [Class]\<rparr> (Part Class ''b'')) = Inr ()"
  using order_check [of "\<lparr>css = ''.a'', structure = [Class]\<rparr>" Id "''x''"]
    order_check [of "\<lparr>css = ''.a'', structure = [Class]\<rparr>" Class "''b''"]
  by (simp add: uniqs_def)

text \<open>
  The builder of \<^verbatim>\<open>element('a').id('b')\<close> has parts, and element ranks below its last
  part, id; yet \<^verbatim>\<open>.element('c')\<close> on it does not throw the order error.
\<close>

theorem order_error_counterexample:
  "run new_CSSSelector [Part Element ''a'', Part Id ''b'']
      = (Inr (), \<lparr>css = ''a#b'', structure = [Element, Id]\<rparr>)
   \<and> structure \<lparr>css = ''a#b'', structure = [Element, Id]\<rparr> \<noteq> []
   \<and> order Element < order (last (structure \<lparr>css = ''a#b'', structure = [Element, Id]\<rparr>))
   \<and> fst (perform \<lparr>css = ''a#b'', structure = [Element, Id]\<rparr> (Part Element ''c''))
      \<noteq> Inl (Error msgOrder)"
  by (simp add: element_def id_sel_def checkStructure_def new_CSSSelector_def uniqs_def
      msgUniqs_def msgOrder_def)

text \<open>
  C3. On every builder, a part method whose kind is element, id or pseudoElement and is
  already among the builder's parts throws the uniqueness error and leaves the builder as
  it was, whatever the ranks are: the check comes before the order check. The two errors
  differ. \<^verbatim>\<open>element('a').id('b').element('c')\<close> throws the uniqueness error, although
  element also ranks below the last part.
\<close>

theorem uniqueness_first:
  "(k \<in> set uniqs \<and> k \<in> set (structure this)
      \<longrightarrow> perform this (Part k v) = (Inl (Error msgUniqs), this))
   \<and> Error msgUniqs \<noteq> Error msgOrder
   \<and> set uniqs = {Element, Id, PseudoElement}
   \<and> run new_CSSSelector [Part Element ''a'', Part Id ''b'']
        = (Inr (), \<lparr>css = ''a#b'', structure = [Element, Id]\<rparr>)
   \<and> order Element < order (last [Element, Id])
   \<and> fst (run new_CSSSelector [Part Element ''a'', Part Id ''b'', Part Element ''c''])
        = Inl (Error msgUniqs)"
proof -
  have "k \<in> set uniqs \<and> k \<in> set (structure this)
      \<longrightarrow> perform this (Part k v) = (Inl (Error msgUniqs), this)"
    by (simp add: perform_Part checkStructure_def)
  moreover have "Error msgUniqs \<noteq> Error msgOrder"
    by (simp add: msgUniqs_def msgOrder_def)
  moreover have "set uniqs = {Element, Id, PseudoElement}"
    by (simp add: uniqs_def)
  moreover have "run new_CSSSelector [Part Element ''a'', Part Id ''b'']
        = (Inr (), \<lparr>css = ''a#b'', structure = [Element, Id]\<rparr>)"
    by (simp add: element_def id_sel_def checkStructure_def new_CSSSelector_def uniqs_def)
  moreover have "fst (run new_CSSSelector [Part Element ''a'', Part Id ''b'', Part Element ''c''])
        = Inl (Error msgUniqs)"
    by (simp add: element_def id_sel_def checkStructure_def new_CSSSelector_def uniqs_def)
  ultimately show ?thesis by simp
qed

theorem uniqueness_first_witness:
  "Id \<in> set uniqs \<and> Id \<in> set (structure \<lparr>css = ''a#b'', structure = [Element, Id]\<rparr>)
   \<and> perform \<lparr>css = ''a#b'', structure = [Element, Id]\<rparr> (Part Id ''c'')
      = (Inl (Error msgUniqs), \<lparr>css = ''a#b'', structure = [Element, Id]\<rparr>)"
  using uniqueness_first [of Id "\<lparr>css = ''a#b'', structure = [Element, Id]\<rparr>" "''c''"]
  by (simp add: uniqs_def)

text \<open>
  C7. When a part method throws, on any builder, the error is one of the two and the
  builder's text and parts are what they were before the call.
\<close>

theorem failed_append_unchanged:
  "fst (perform this (Part k v)) = Inl e
   \<Longrightarrow> snd (perform this (Part k v)) = this \<and> (e = Error msgUniqs \<or> e = Error msgOrder)"
  by (auto simp: perform_Part checkStructure_def split: if_splits)

theorem failed_append_unchanged_witness:
  "fst (perform \<lparr>css = ''#x'', structure = [Id]\<rparr> (Part Element ''y'')) = Inl (Error msgOrder)
   \<and> snd (perform \<lparr>css = ''#x'', structure = [Id]\<rparr> (Part Element ''y''))
      = \<lparr>css = ''#x'', structure = [Id]\<rparr>
   \<and> fst (perform \<lparr>css = ''#x'', structure = [Id]\<rparr> (Part Id ''z'')) = Inl (Error msgUniqs)
   \<and> snd (perform \<lparr>css = ''#x'', structure = [Id]\<rparr> (Part Id ''z''))
      = \<lparr>css = ''#x'', structure = [Id]\<rparr>"
proof -
  have h: "fst (perform \<lparr>css = ''#x'', structure = [Id]\<rparr> (Part Element ''y'')) = Inl (Error msgOrder)"
    by (simp add: element_def checkStructure_def uniqs_def)
  have h': "fst (perform \<lparr>css = ''#x'', structure = [Id]\<rparr> (Part Id ''z'')) = Inl (Error msgUniqs)"
    by (simp add: id_sel_def checkStructure_def uniqs_def)
  show ?thesis
    using h h' failed_append_unchanged [OF h] failed_append_unchanged [OF h'] by simp
qed

subsection \<open>combine and stringify\<close>

text \<open>
  C4. For all builders \<open>left\<close> and \<open>right\<close> and every string \<open>c\<close>, \<open>combine\<close> returns
  normally on every receiver, whatever parts the three builders have; it appends
  \<open>left\<close>'s text, a space, \<open>c\<close>, a space and \<open>right\<close>'s text to the receiver's text and
  leaves the receiver's parts as they were.
  \<^verbatim>\<open>combine(element('div'), '+', id('main')).stringify()\<close> is \<^verbatim>\<open>'div + #main'\<close>.
\<close>

theorem combine_appends:
  "fst (combine this left c right) = Inr ()
   \<and> css (snd (combine this left c right))
      = css this @ (fst (stringify left) @ '' '' @ c @ '' '' @ fst (stringify right))
   \<and> structure (snd (combine this left c right)) = structure this
   \<and> fst (cssSelectorBuilder_element ''div'') = Inr ()
   \<and> fst (cssSelectorBuilder_id ''main'') = Inr ()
   \<and> fst (stringify (snd (cssSelectorBuilder_combine (snd (cssSelectorBuilder_element ''div''))
          ''+'' (snd (cssSelectorBuilder_id ''main''))))) = ''div + #main''"
  by (simp add: combine_def stringify_def cssSelectorBuilder_combine_def
      cssSelectorBuilder_element_def cssSelectorBuilder_id_def element_def id_sel_def
      checkStructure_def new_CSSSelector_def uniqs_def)

text \<open>
  C6. On every builder \<open>stringify\<close> returns the text, leaves the builder as it was, and
  returns the same string when called again; the facade's \<open>stringify\<close> returns the empty
  string.
\<close>

theorem stringify_pure:
  "fst (stringify this) = css this
   \<and> snd (stringify this) = this
   \<and> fst (stringify (snd (stringify this))) = fst (stringify this)
   \<and> cssSelectorBuilder_stringify = []"
  by (simp add: stringify_def cssSelectorBuilder_stringify_def new_CSSSelector_def)

subsection \<open>The invariant of the parts\<close>

lemma sorted_le_last:
  "sorted xs \<Longrightarrow> x \<in> set xs \<Longrightarrow> x \<le> (last xs :: nat)"
  by (induction xs) auto

lemma rank_sorted_snoc:
  assumes "rank_sorted ks" and "ks = [] \<or> order (last ks) \<le> order k"
  shows "rank_sorted (ks @ [k])"
proof (cases "ks = []")
  case True
  then show ?thesis by (simp add: rank_sorted_def)
next
  case False
  with assms(2) have le: "order (last ks) \<le> order k" by simp
  have "x \<le> order k" if "x \<in> set (map order ks)" for x
  proof -
    from assms(1) that have "x \<le> last (map order ks)"
      unfolding rank_sorted_def by (rule sorted_le_last)
    with False le show ?thesis by (simp add: last_map)
  qed
  with assms(1) show ?thesis
    by (simp add: rank_sorted_def sorted_append)
qed

lemma singletons_once_snoc:
  assumes "singletons_once ks" and "\<not> (k \<in> set uniqs \<and> k \<in> set ks)"
  shows "singletons_once (ks @ [k])"
  unfolding singletons_once_def list_all_iff
proof
  fix u assume u: "u \<in> set uniqs"
  with assms(1) have old: "count_list ks u \<le> 1"
    unfolding singletons_once_def list_all_iff by blast
  show "count_list (ks @ [k]) u \<le> 1"
  proof (cases "k = u")
    case True
    with u assms(2) have "count_list ks u = 0" by (simp add: count_list_0_iff)
    with True show ?thesis by simp
  next
    case False
    with old show ?thesis by simp
  qed
qed

lemma checkStructure_keeps:
  assumes "rank_sorted (structure this)" and "singletons_once (structure this)"
  shows "rank_sorted (structure (snd (checkStructure this k)))
       \<and> singletons_once (structure (snd (checkStructure this k)))"
proof (cases "k \<in> set uniqs \<and> k \<in> set (structure this)")
  case True
  with assms show ?thesis by (simp add: checkStructure_def)
next
  case fresh: False
  show ?thesis
  proof (cases "length (structure this) > 0 \<and> order k < order (last (structure this))")
    case True
    with fresh assms show ?thesis by (simp add: checkStructure_def)
  next
    case False
    then have ord: "structure this = [] \<or> order (last (structure this)) \<le> order k"
      by auto
    from fresh ord have "checkStructure this k = (Inr (), this\<lparr>structure := structure this @ [k]\<rparr>)"
      by (rule checkStructure_accepts)
    with rank_sorted_snoc [OF assms(1) ord] singletons_once_snoc [OF assms(2) fresh]
    show ?thesis by simp
  qed
qed

lemma perform_structure:
  "structure (snd (perform this c)) =
     (case c of Part k v \<Rightarrow> structure (snd (checkStructure this k))
              | Combine s1 cmb s2 \<Rightarrow> structure this)"
  by (cases c) (auto simp: perform_Part combine_def split: prod.splits sum.splits)

lemma perform_keeps:
  assumes "rank_sorted (structure this)" and "singletons_once (structure this)"
  shows "rank_sorted (structure (snd (perform this c)))
       \<and> singletons_once (structure (snd (perform this c)))"
  unfolding perform_structure
  using assms checkStructure_keeps [OF assms]
  by (cases c) simp_all

lemma run_keeps:
  assumes "rank_sorted (structure this)" and "singletons_once (structure this)"
  shows "rank_sorted (structure (snd (run this cs)))
       \<and> singletons_once (structure (snd (run this cs)))"
  using assms
proof (induction cs arbitrary: this)
  case Nil
  then show ?case by simp
next
  case (Cons c cs)
  obtain r this' where pc: "perform this c = (r, this')" by (cases "perform this c")
  from perform_keeps [OF Cons.prems, of c] pc
  have keep: "rank_sorted (structure this')" "singletons_once (structure this')" by simp_all
  show ?case
  proof (cases r)
    case (Inl e)
    with pc keep show ?thesis by simp
  next
    case (Inr u)
    with pc Cons.IH [OF keep] show ?thesis by simp
  qed
qed

text \<open>
  C5. The builder reached from a new one by any sequence of part-method and \<open>combine\<close>
  calls, none of which threw, has parts whose ranks never decrease and among which none of
  element, id, pseudoElement occurs twice; and every such call that returns on a builder
  with these two properties yields a builder with them.
\<close>

theorem structure_invariant:
  "(fst (run new_CSSSelector cs) = Inr ()
      \<longrightarrow> rank_sorted (structure (snd (run new_CSSSelector cs)))
        \<and> singletons_once (structure (snd (run new_CSSSelector cs))))
   \<and> (rank_sorted (structure this) \<and> singletons_once (structure this)
        \<and> fst (perform this c) = Inr ()
      \<longrightarrow> rank_sorted (structure (snd (perform this c)))
        \<and> singletons_once (structure (snd (perform this c))))"
proof -
  have "rank_sorted (structure new_CSSSelector)" "singletons_once (structure new_CSSSelector)"
    by (simp_all add: new_CSSSelector_def rank_sorted_def singletons_once_def uniqs_def)
  then show ?thesis using run_keeps perform_keeps by blast
qed

theorem structure_invariant_witness:
  "fst (run new_CSSSelector [Part Element ''div'', Combine \<lparr>css = ''a'', structure = [Element]\<rparr> ''+''
         \<lparr>css = ''#b'', structure = [Id]\<rparr>, Part Class ''c'', Part Class ''d'']) = Inr ()
   \<and> snd (run new_CSSSelector [Part Element ''div'', Combine \<lparr>css = ''a'', structure = [Element]\<rparr> ''+''
         \<lparr>css = ''#b'', structure = [Id]\<rparr>, Part Class ''c'', Part Class ''d''])
      = \<lparr>css = ''diva + #b.c.d'', structure = [Element, Class, Class]\<rparr>
   \<and> rank_sorted [Element, Class, Class] \<and> singletons_once [Element, Class, Class]
   \<and> fst (perform \<lparr>css = ''div'', structure = [Element]\<rparr> (Part Id ''x'')) = Inr ()
   \<and> rank_sorted (structure (snd (perform \<lparr>css = ''div'', structure = [Element]\<rparr> (Part Id ''x''))))
   \<and> singletons_once (structure (snd (perform \<lparr>css = ''div'', structure = [Element]\<rparr> (Part Id ''x''))))"
proof -
  let ?cs = "[Part Element ''div'', Combine \<lparr>css = ''a'', structure = [Element]\<rparr> ''+''
         \<lparr>css = ''#b'', structure = [Id]\<rparr>, Part Class ''c'', Part Class ''d'']"
  let ?s = "\<lparr>css = ''div'', structure = [Element]\<rparr>"
  have r: "run new_CSSSelector ?cs
      = (Inr (), \<lparr>css = ''diva + #b.c.d'', structure = [Element, Class, Class]\<rparr>)"
    by (simp add: element_def class_sel_def combine_def stringify_def checkStructure_def
        new_CSSSelector_def uniqs_def)
  have p: "perform ?s (Part Id ''x'') = (Inr (), \<lparr>css = ''div#x'', structure = [Element, Id]\<rparr>)"
    by (simp add: id_sel_def checkStructure_def uniqs_def)
  have i: "rank_sorted (structure ?s) \<and> singletons_once (structure ?s)"
    by (simp add: rank_sorted_def singletons_once_def uniqs_def)
  show ?thesis
    using structure_invariant [of ?cs ?s "Part Id ''x''"] r p i by simp
qed

end
